theory Spec2Isabelle
  imports Main
begin

section \<open>Python values used by the service\<close>

text \<open>
  A Python \<open>str\<close> is a sequence of Unicode code points, so the request texts are lists
  of code points (natural numbers), not byte strings. The literals of the source that
  are plain ASCII (paths, names, messages, dictionary keys) are HOL strings; \<open>lit\<close>
  reads such a literal as a Python \<open>str\<close>.
\<close>

type_synonym codepoint = nat
type_synonym str = "codepoint list"

definition lit :: "string \<Rightarrow> str" where
  "lit s = map of_char s"

text \<open>
  \<open>str.isspace\<close> on one code point: the characters CPython treats as whitespace
  (U+0009..U+000D, U+001C..U+0020, U+0085, U+00A0, U+1680, U+2000..U+200A, U+2028,
  U+2029, U+202F, U+205F, U+3000).
\<close>

definition isspace :: "codepoint \<Rightarrow> bool" where
  "isspace c \<longleftrightarrow>
     (9 \<le> c \<and> c \<le> 13) \<or> (28 \<le> c \<and> c \<le> 32) \<or> c = 133 \<or> c = 160 \<or> c = 5760 \<or>
     (8192 \<le> c \<and> c \<le> 8202) \<or> c = 8232 \<or> c = 8233 \<or> c = 8239 \<or> c = 8287 \<or> c = 12288"

definition lstrip :: "str \<Rightarrow> str" where
  "lstrip s = dropWhile isspace s"

definition rstrip :: "str \<Rightarrow> str" where
  "rstrip s = rev (dropWhile isspace (rev s))"

text \<open>\<open>t.strip()\<close> with no argument removes leading and trailing whitespace.\<close>

definition strip :: "str \<Rightarrow> str" where
  "strip s = rstrip (lstrip s)"

text \<open>An exception raised by the model library, named by its message.\<close>

type_synonym exn = string

text \<open>The two-dimensional array \<open>encode\<close> returns, as its rows; \<open>tolist\<close> is \<open>ndarray.tolist()\<close>.\<close>

datatype 'f ndarray = NDArray "'f list list"

fun tolist :: "'f ndarray \<Rightarrow> 'f list list" where
  "tolist (NDArray rows) = rows"

section \<open>Request and response models (main.py, lines 10-15)\<close>

record EmbedRequest =
  texts :: "str list"

record 'f EmbedResponse =
  embeddings :: "'f list list"

text \<open>
  The body of a request as the framework hands it to the model class: the \<open>texts\<close>
  field present with a list of strings, or absent. \<open>Field(default_factory=list)\<close> fills
  an absent field with the empty list.
\<close>

definition parse_EmbedRequest :: "str list option \<Rightarrow> EmbedRequest" where
  "parse_EmbedRequest field = \<lparr>texts = (case field of None \<Rightarrow> [] | Some ts \<Rightarrow> ts)\<rparr>"

section \<open>The model library, as the service sees it\<close>

text \<open>The arguments of one \<open>SentenceTransformer(...)\<close> construction.\<close>

record load_call =
  model_name_or_path :: string
  device :: string

text \<open>The arguments of one \<open>model.encode(...)\<close> call.\<close>

record encode_call =
  sentences :: "str list"
  batch_size :: nat
  show_progress_bar :: bool
  normalize_embeddings :: bool
  convert_to_numpy :: bool

text \<open>
  The loaded model is an object of the library: some internal state \<open>internals\<close> (of a
  type \<open>'w\<close> the service never inspects) and the method \<open>encode\<close>, which reads and
  may change that state, and either returns an array or raises. Nothing is assumed
  about \<open>encode\<close>; what a theorem needs of the library it states as a hypothesis.
\<close>

record ('f, 'w) SentenceTransformer =
  internals :: 'w
  encode :: "'w \<Rightarrow> encode_call \<Rightarrow> (exn + 'f ndarray) \<times> 'w"

section \<open>Process state\<close>

text \<open>
  The module-level globals \<open>model\<close> and \<open>model_lock\<close> (lines 21-26), and a trace of
  the effects performed so far, kept so that the theorems can speak about which calls
  were made and in which order.
\<close>

datatype event = Load load_call | Acquire | Release | Encode encode_call

record ('f, 'w) process =
  model :: "('f, 'w) SentenceTransformer"
  model_lock :: bool
  trace :: "event list"

text \<open>What a handler raises: an \<open>HTTPException\<close>, or an exception of the model that nothing catches.\<close>

datatype error = HTTPException nat string | Unhandled exn

section \<open>The embed handler (main.py, lines 36-54)\<close>

text \<open>Line 41: \<open>[t.strip() for t in req.texts if t and t.strip()]\<close>.\<close>

definition clean_texts :: "str list \<Rightarrow> str list" where
  "clean_texts ts = map strip (filter (\<lambda>t. t \<noteq> [] \<and> strip t \<noteq> []) ts)"

text \<open>
  Entering \<open>with model_lock\<close> acquires the lock; a thread that finds it held blocks,
  which in a run of one handler on its own is \<open>None\<close>: nobody else will release it.
\<close>

definition acquire :: "('f, 'w) process \<Rightarrow> ('f, 'w) process option" where
  "acquire p =
     (if model_lock p then None
      else Some (p\<lparr>model_lock := True, trace := trace p @ [Acquire]\<rparr>))"

text \<open>Leaving the \<open>with\<close> block releases the lock, on a normal exit and on an exception.\<close>

definition release :: "('f, 'w) process \<Rightarrow> ('f, 'w) process" where
  "release p = p\<lparr>model_lock := False, trace := trace p @ [Release]\<rparr>"

text \<open>Lines 46-52: the call of \<open>model.encode\<close> with its keyword arguments.\<close>

definition encode_args :: "str list \<Rightarrow> encode_call" where
  "encode_args batch =
     \<lparr>sentences = batch, batch_size = 32, show_progress_bar = False,
      normalize_embeddings = False, convert_to_numpy = True\<rparr>"

definition call_encode ::
    "('f, 'w) process \<Rightarrow> str list \<Rightarrow> (exn + 'f ndarray) \<times> ('f, 'w) process" where
  "call_encode p batch =
     (let (r, w) = encode (model p) (internals (model p)) (encode_args batch)
      in (r, p\<lparr>model := (model p)\<lparr>internals := w\<rparr>,
                trace := trace p @ [Encode (encode_args batch)]\<rparr>))"

definition embed ::
    "('f, 'w) process \<Rightarrow> EmbedRequest \<Rightarrow> ((error + 'f EmbedResponse) \<times> ('f, 'w) process) option" where
  "embed p req =
     (if texts req = [] then Some (Inr \<lparr>embeddings = []\<rparr>, p)
      else
        let clean = clean_texts (texts req) in
        if length clean \<noteq> length (texts req)
        then Some (Inl (HTTPException 400 ''texts must be non-empty strings''), p)
        else
          (case acquire p of
            None \<Rightarrow> None
          | Some p1 \<Rightarrow>
              let (r, p2) = call_encode p1 clean;
                  p3 = release p2
              in (case r of
                    Inl e \<Rightarrow> Some (Inl (Unhandled e), p3)
                  | Inr vectors \<Rightarrow> Some (Inr \<lparr>embeddings = tolist vectors\<rparr>, p3))))"

text \<open>
  The status the framework answers with: 200 for a returned response, the exception's
  own code for an \<open>HTTPException\<close>, 500 for any other exception.
\<close>

fun status_code :: "error + 'r \<Rightarrow> nat" where
  "status_code (Inr _) = 200"
| "status_code (Inl (HTTPException code _)) = code"
| "status_code (Inl (Unhandled _)) = 500"

section \<open>Model loading at import time (main.py, lines 18-26)\<close>

type_synonym environ = "string \<rightharpoonup> string"

text \<open>\<open>os.getenv(key, dflt)\<close>: the default only when the variable is not set.\<close>

definition getenv :: "environ \<Rightarrow> string \<Rightarrow> string \<Rightarrow> string" where
  "getenv env key dflt = (case env key of None \<Rightarrow> dflt | Some v \<Rightarrow> v)"

definition MODEL_PATH :: "environ \<Rightarrow> string" where
  "MODEL_PATH env = getenv env ''EMBEDDINGS_MODEL_PATH'' ''/models/all-MiniLM-L6-v2''"

definition MODEL_NAME :: "environ \<Rightarrow> string" where
  "MODEL_NAME env = getenv env ''EMBEDDINGS_MODEL'' ''sentence-transformers/all-MiniLM-L6-v2''"

text \<open>
  Lines 21-24: which construction is made. The file system enters through \<open>isdir\<close>,
  the answer of \<open>os.path.isdir\<close>.
\<close>

definition load_args :: "environ \<Rightarrow> (string \<Rightarrow> bool) \<Rightarrow> load_call" where
  "load_args env isdir =
     (if isdir (MODEL_PATH env)
      then \<lparr>model_name_or_path = MODEL_PATH env, device = ''cpu''\<rparr>
      else \<lparr>model_name_or_path = MODEL_NAME env, device = ''cpu''\<rparr>)"

text \<open>
  Importing the module: the constructor of the library (a parameter: it returns the
  model or raises) is called once, then the lock is created, free. An exception of
  the constructor ends the import, and no process state exists.
\<close>

definition startup ::
    "(load_call \<Rightarrow> exn + ('f, 'w) SentenceTransformer) \<Rightarrow> environ \<Rightarrow> (string \<Rightarrow> bool)
      \<Rightarrow> exn + ('f, 'w) process" where
  "startup ctor env isdir =
     (case ctor (load_args env isdir) of
        Inl e \<Rightarrow> Inl e
      | Inr m \<Rightarrow> Inr \<lparr>model = m, model_lock = False, trace = [Load (load_args env isdir)]\<rparr>)"

section \<open>The health handler (main.py, lines 31-33)\<close>

text \<open>The values of the returned dictionary, which is an association list in key order.\<close>

datatype json = JStr string | JInt int

definition health :: "('f, 'w) process \<Rightarrow> (string \<times> json) list \<times> ('f, 'w) process" where
  "health p =
     ([(''status'', JStr ''ok''), (''model'', JStr ''all-MiniLM-L6-v2''), (''dimensions'', JInt 384)], p)"

section \<open>Serving requests one after another\<close>

datatype request = GET_health | POST_embed "str list option"

datatype 'f reply = Health_reply "(string \<times> json) list" | Embed_reply "error + 'f EmbedResponse"

definition dispatch ::
    "('f, 'w) process \<Rightarrow> request \<Rightarrow> ('f reply \<times> ('f, 'w) process) option" where
  "dispatch p rq =
     (case rq of
        GET_health \<Rightarrow> (let (body, p') = health p in Some (Health_reply body, p'))
      | POST_embed field \<Rightarrow>
          (case embed p (parse_EmbedRequest field) of
             None \<Rightarrow> None
           | Some (out, p') \<Rightarrow> Some (Embed_reply out, p')))"

fun serve ::
    "('f, 'w) process \<Rightarrow> request list \<Rightarrow> ('f reply list \<times> ('f, 'w) process) option" where
  "serve p [] = Some ([], p)"
| "serve p (rq # rqs) =
     (case dispatch p rq of
        None \<Rightarrow> None
      | Some (r, p') \<Rightarrow>
          (case serve p' rqs of
             None \<Rightarrow> None
           | Some (rs, p'') \<Rightarrow> Some (r # rs, p'')))"

fun is_Load :: "event \<Rightarrow> bool" where
  "is_Load (Load _) = True"
| "is_Load _ = False"


section \<open>Concurrent handlers\<close>

text \<open>
  The framework runs each call of \<open>embed\<close> on a thread of a pool, so several are in
  flight at once and interleave. A thread is at one of these points of lines 37-54:
  entering the handler; validated and about to enter \<open>with model_lock\<close>; inside the
  block with \<open>model.encode\<close> running; \<open>encode\<close> over (returned or raised) and the block
  not yet left; finished, with the response or the exception.
\<close>

datatype 'f pc =
    Entry EmbedRequest
  | AtWith "str list"
  | InEncode "str list"
  | AtExit "exn + 'f ndarray"
  | Finished "error + 'f EmbedResponse"

text \<open>
  One step of one thread on the shared process state; \<open>None\<close> when the thread cannot
  move: it waits for the lock, or it has finished.
\<close>

fun tstep :: "'f pc \<Rightarrow> ('f, 'w) process \<Rightarrow> ('f pc \<times> ('f, 'w) process) option" where
  "tstep (Entry req) p =
     (if texts req = [] then Some (Finished (Inr \<lparr>embeddings = []\<rparr>), p)
      else
        let clean = clean_texts (texts req) in
        if length clean \<noteq> length (texts req)
        then Some (Finished (Inl (HTTPException 400 ''texts must be non-empty strings'')), p)
        else Some (AtWith clean, p))"
| "tstep (AtWith clean) p =
     (case acquire p of
        None \<Rightarrow> None
      | Some p1 \<Rightarrow> Some (InEncode clean, p1))"
| "tstep (InEncode clean) p =
     (let (r, p2) = call_encode p clean in Some (AtExit r, p2))"
| "tstep (AtExit r) p =
     Some (Finished (case r of
                       Inl e \<Rightarrow> Inl (Unhandled e)
                     | Inr vectors \<Rightarrow> Inr \<lparr>embeddings = tolist vectors\<rparr>),
           release p)"
| "tstep (Finished out) p = None"

text \<open>A thread on its own, for at most \<open>n\<close> steps.\<close>

fun run_thread ::
    "nat \<Rightarrow> 'f pc \<Rightarrow> ('f, 'w) process \<Rightarrow> ('f pc \<times> ('f, 'w) process) option" where
  "run_thread 0 c p = Some (c, p)"
| "run_thread (Suc n) c p =
     (case c of
        Finished out \<Rightarrow> Some (c, p)
      | _ \<Rightarrow> (case tstep c p of
               None \<Rightarrow> None
             | Some (c', p') \<Rightarrow> run_thread n c' p'))"

text \<open>
  The server: a request arrives and gets a thread, or some thread takes a step.
\<close>

inductive sys_step ::
    "'f pc list \<times> ('f, 'w) process \<Rightarrow> 'f pc list \<times> ('f, 'w) process \<Rightarrow> bool" where
  arrive: "sys_step (ts, p) (ts @ [Entry req], p)"
| move: "i < length ts \<Longrightarrow> tstep (ts ! i) p = Some (c', p') \<Longrightarrow> sys_step (ts, p) (ts[i := c'], p')"

text \<open>The states the server reaches from a state with no request in flight.\<close>

inductive reachable ::
    "('f, 'w) process \<Rightarrow> 'f pc list \<times> ('f, 'w) process \<Rightarrow> bool" for p0 where
  init: "reachable p0 ([], p0)"
| step: "reachable p0 s \<Longrightarrow> sys_step s s' \<Longrightarrow> reachable p0 s'"

text \<open>A thread is computing an encoding; a thread is inside the \<open>with\<close> block.\<close>

fun encoding :: "'f pc \<Rightarrow> bool" where
  "encoding (InEncode _) = True"
| "encoding _ = False"

fun in_with :: "'f pc \<Rightarrow> bool" where
  "in_with (InEncode _) = True"
| "in_with (AtExit _) = True"
| "in_with _ = False"

section \<open>A small model for concrete runs\<close>

text \<open>
  A stand-in for the library, used where a theorem is run on a concrete input: each
  sentence is encoded as its length and the sum of its code points, a sentence of more
  than eight code points makes \<open>encode\<close> raise, and every call counts up the internal state.
\<close>

definition example_encode :: "nat \<Rightarrow> encode_call \<Rightarrow> (exn + nat ndarray) \<times> nat" where
  "example_encode w c =
     (if list_ex (\<lambda>s. 8 < length s) (sentences c) then (Inl ''sequence too long'', Suc w)
      else (Inr (NDArray (map (\<lambda>s. [length s, sum_list s]) (sentences c))), Suc w))"

definition example_ctor :: "load_call \<Rightarrow> exn + (nat, nat) SentenceTransformer" where
  "example_ctor call =
     (if device call = ''cpu'' then Inr \<lparr>internals = 0, encode = example_encode\<rparr>
      else Inl ''no such device'')"

definition example_process :: "(nat, nat) process" where
  "example_process =
     \<lparr>model = \<lparr>internals = 0, encode = example_encode\<rparr>, model_lock = False,
      trace = [Load \<lparr>model_name_or_path = ''sentence-transformers/all-MiniLM-L6-v2'', device = ''cpu''\<rparr>]\<rparr>"



section \<open>Facts about stripping and validation\<close>

lemma strip_Nil: "strip [] = []"
  by (simp add: strip_def lstrip_def rstrip_def)

lemma all_dropWhile: "(\<forall>x\<in>set (dropWhile P xs). P x) \<longleftrightarrow> (\<forall>x\<in>set xs. P x)"
  by (induction xs) auto

lemma strip_empty_iff: "strip t = [] \<longleftrightarrow> (\<forall>c\<in>set t. isspace c)"
  by (simp add: strip_def lstrip_def rstrip_def dropWhile_eq_Nil_conv all_dropWhile)

lemma dropWhile_id_iff: "dropWhile P ys = ys \<longleftrightarrow> ys = [] \<or> \<not> P (hd ys)"
proof (cases ys)
  case Nil
  then show ?thesis by simp
next
  case (Cons y ys')
  have "length (dropWhile P ys') \<le> length ys'" by (rule length_dropWhile_le)
  then have "dropWhile P ys' \<noteq> y # ys'" by auto
  with Cons show ?thesis by simp
qed

lemma rstrip_keeps_head:
  assumes "ys = [] \<or> \<not> isspace (hd ys)"
  shows "rstrip ys = [] \<or> \<not> isspace (hd (rstrip ys))"
proof (cases ys)
  case Nil
  then show ?thesis by (simp add: rstrip_def)
next
  case (Cons y ys')
  with assms have y: "\<not> isspace y" by simp
  have "dropWhile isspace (rev ys' @ [y]) =
        (if \<forall>x\<in>set (rev ys'). isspace x then [] else dropWhile isspace (rev ys')) @ [y]"
    using y by (simp add: dropWhile_append)
  then have "rstrip ys = y # rev (if \<forall>x\<in>set (rev ys'). isspace x then [] else dropWhile isspace (rev ys'))"
    using Cons by (simp add: rstrip_def)
  then show ?thesis using y by simp
qed

lemma lstrip_strip: "lstrip (strip s) = strip s"
proof -
  have "lstrip s = [] \<or> \<not> isspace (hd (lstrip s))"
    unfolding lstrip_def using hd_dropWhile [of isspace s] by blast
  then have "strip s = [] \<or> \<not> isspace (hd (strip s))"
    unfolding strip_def by (rule rstrip_keeps_head)
  then show ?thesis
    by (simp add: lstrip_def dropWhile_id_iff)
qed

lemma rstrip_rstrip: "rstrip (rstrip s) = rstrip s"
  by (simp add: rstrip_def dropWhile_idem)

lemma strip_idem: "strip (strip s) = strip s"
proof -
  have "strip (strip s) = rstrip (lstrip (strip s))" by (simp add: strip_def)
  also have "\<dots> = rstrip (strip s)" by (simp add: lstrip_strip)
  also have "\<dots> = strip s" by (simp add: strip_def rstrip_rstrip)
  finally show ?thesis .
qed

lemma keep_iff: "(t \<noteq> [] \<and> strip t \<noteq> []) \<longleftrightarrow> strip t \<noteq> []"
  using strip_Nil by auto

lemma clean_texts_eq: "clean_texts ts = map strip (filter (\<lambda>t. strip t \<noteq> []) ts)"
  by (simp add: clean_texts_def keep_iff)

lemma length_clean_texts_iff:
  "length (clean_texts ts) = length ts \<longleftrightarrow> (\<forall>t\<in>set ts. strip t \<noteq> [])"
proof -
  have "length (filter P xs) = length xs \<longleftrightarrow> (\<forall>x\<in>set xs. P x)" for P and xs :: "str list"
  proof (induction xs)
    case Nil
    then show ?case by simp
  next
    case (Cons x xs)
    have le: "length (filter P xs) \<le> length xs" by (rule length_filter_le)
    show ?case
    proof (cases "P x")
      case True
      with Cons show ?thesis by simp
    next
      case False
      with le show ?thesis by (simp del: length_filter_le)
    qed
  qed
  then show ?thesis by (simp add: clean_texts_eq)
qed


lemma clean_texts_valid: "\<forall>t\<in>set ts. strip t \<noteq> [] \<Longrightarrow> clean_texts ts = map strip ts"
  by (simp add: clean_texts_eq)

lemma embed_accepted:
  assumes "texts req \<noteq> []" and "\<forall>t\<in>set (texts req). strip t \<noteq> []" and "\<not> model_lock p"
  shows "embed p req =
    (let (r, w) = encode (model p) (internals (model p)) (encode_args (map strip (texts req)));
         p' = p\<lparr>model := (model p)\<lparr>internals := w\<rparr>,
                trace := trace p @ [Acquire, Encode (encode_args (map strip (texts req))), Release]\<rparr>
     in Some (case r of Inl e \<Rightarrow> Inl (Unhandled e) | Inr vectors \<Rightarrow> Inr \<lparr>embeddings = tolist vectors\<rparr>, p'))"
  using assms
  by (simp add: embed_def clean_texts_valid acquire_def call_encode_def release_def Let_def
      split: prod.splits sum.splits)

lemma embed_rejected:
  assumes "t \<in> set (texts req)" and "strip t = []"
  shows "embed p req = Some (Inl (HTTPException 400 ''texts must be non-empty strings''), p)"
proof -
  from assms have "texts req \<noteq> []" by auto
  moreover from assms have "length (clean_texts (texts req)) \<noteq> length (texts req)"
    by (auto simp: length_clean_texts_iff)
  ultimately show ?thesis by (simp add: embed_def)
qed

lemma embed_cases:
  obtains (empty) "texts req = []"
  | (rejected) t where "t \<in> set (texts req)" "strip t = []"
  | (accepted) "texts req \<noteq> []" "\<forall>t\<in>set (texts req). strip t \<noteq> []"
  by blast

lemma embed_effect:
  assumes free: "\<not> model_lock p"
  shows "\<exists>out p' evs. embed p req = Some (out, p') \<and> \<not> model_lock p' \<and>
           encode (model p') = encode (model p) \<and>
           trace p' = trace p @ evs \<and> filter is_Load evs = []"
proof (cases req rule: embed_cases)
  case empty
  then show ?thesis using free by (simp add: embed_def)
next
  case (rejected t)
  then show ?thesis using free by (simp add: embed_rejected)
next
  case accepted
  show ?thesis
    using free
    by (simp add: embed_accepted [OF accepted free] Let_def split: prod.splits)
qed



section \<open>Facts about threads and the lock\<close>

lemma tstep_trace:
  assumes "tstep c p = Some (c', p')"
  shows "\<exists>evs. trace p' = trace p @ evs \<and> filter is_Load evs = []"
  using assms
  by (cases c)
    (auto simp: acquire_def call_encode_def release_def Let_def split: if_splits prod.splits)

lemma tstep_encode_method:
  assumes "tstep c p = Some (c', p')"
  shows "encode (model p') = encode (model p)"
  using assms
  by (cases c)
    (auto simp: acquire_def call_encode_def release_def Let_def split: if_splits prod.splits)

lemma filter_update_count:
  "i < length xs \<Longrightarrow>
   length (filter P (xs[i := y])) + (if P (xs ! i) then 1 else 0) =
   length (filter P xs) + (if P y then 1 else 0)"
proof (induction xs arbitrary: i)
  case Nil
  then show ?case by simp
next
  case (Cons x xs)
  then show ?case by (cases i) auto
qed

lemma filter_count_one_unique:
  assumes "length (filter P xs) \<le> 1" and "i < length xs" and "j < length xs"
    and "P (xs ! i)" and "P (xs ! j)"
  shows "i = j"
  using assms
proof (induction xs arbitrary: i j)
  case Nil
  then show ?case by simp
next
  case (Cons x xs)
  show ?case
  proof (cases "P x")
    case True
    with Cons.prems(1) have none: "filter P xs = []" by simp
    have "i = 0"
    proof (rule ccontr)
      assume "i \<noteq> 0"
      then obtain i' where "i = Suc i'" by (cases i) auto
      with Cons.prems have "xs ! i' \<in> set xs" "P (xs ! i')" by auto
      with none show False by (auto simp: filter_empty_conv)
    qed
    moreover have "j = 0"
    proof (rule ccontr)
      assume "j \<noteq> 0"
      then obtain j' where "j = Suc j'" by (cases j) auto
      with Cons.prems have "xs ! j' \<in> set xs" "P (xs ! j')" by auto
      with none show False by (auto simp: filter_empty_conv)
    qed
    ultimately show ?thesis by simp
  next
    case False
    with Cons.prems obtain i' j' where ij: "i = Suc i'" "j = Suc j'"
      by (cases i; cases j) auto
    with Cons.prems False have "i' = j'"
      by (intro Cons.IH) auto
    with ij show ?thesis by simp
  qed
qed

lemma tstep_lock:
  assumes "tstep c p = Some (c', p')"
  shows "(in_with c \<and> \<not> in_with c' \<and> \<not> model_lock p') \<or>
         (\<not> in_with c \<and> in_with c' \<and> \<not> model_lock p \<and> model_lock p') \<or>
         (in_with c = in_with c' \<and> model_lock p' = model_lock p)"
  using assms
  by (cases c)
    (auto simp: acquire_def call_encode_def release_def Let_def split: if_splits prod.splits)

lemma reachable_lock_count:
  assumes "reachable p0 s" and "\<not> model_lock p0"
  shows "length (filter in_with (fst s)) = (if model_lock (snd s) then 1 else 0)"
  using assms
proof (induction rule: reachable.induct)
  case init
  then show ?case by simp
next
  case (step s s')
  from step.hyps(2) show ?case
  proof (cases rule: sys_step.cases)
    case (arrive ts p req)
    with step show ?thesis by simp
  next
    case (move i ts p c' p')
    from step.IH step.prems move(1)
    have inv: "length (filter in_with ts) = (if model_lock p then 1 else 0)" by simp
    from filter_update_count [OF move(3), of in_with c']
    have upd: "length (filter in_with (ts[i := c'])) + (if in_with (ts ! i) then 1 else 0) =
        length (filter in_with ts) + (if in_with c' then 1 else 0)" .
    have mem: "in_with (ts ! i) \<Longrightarrow> 0 < length (filter in_with ts)"
      using move(3) by (auto simp: filter_empty_conv intro!: bexI [of _ "ts ! i"])
    from tstep_lock [OF move(4)] inv upd mem show ?thesis
      unfolding move(2) by (auto split: if_splits)
  qed
qed

lemma encoding_in_with: "encoding c \<Longrightarrow> in_with c"
  by (cases c) simp_all

lemma filter_encoding_le: "length (filter encoding ts) \<le> length (filter in_with ts)"
  by (induction ts) (auto dest: encoding_in_with)

text \<open>
  A thread that runs on its own does what \<open>embed\<close> does: the sequential handler and
  the stepwise one are the same program.
\<close>

lemma run_thread_embed:
  "run_thread 4 (Entry req) p = map_option (\<lambda>(out, p'). (Finished out, p')) (embed p req)"
  by (simp add: eval_nat_numeral embed_def Let_def acquire_def split: prod.splits sum.splits)

lemma dispatch_effect:
  assumes "\<not> model_lock p"
  shows "\<exists>r p' evs. dispatch p rq = Some (r, p') \<and> \<not> model_lock p' \<and>
           trace p' = trace p @ evs \<and> filter is_Load evs = []"
proof (cases rq)
  case GET_health
  then show ?thesis using assms by (simp add: dispatch_def health_def)
next
  case (POST_embed field)
  from embed_effect [OF assms, of "parse_EmbedRequest field"]
  show ?thesis unfolding POST_embed dispatch_def by auto
qed

lemma serve_effect:
  assumes "\<not> model_lock p"
  shows "\<exists>rs p' evs. serve p rqs = Some (rs, p') \<and> \<not> model_lock p' \<and>
           trace p' = trace p @ evs \<and> filter is_Load evs = []"
  using assms
proof (induction rqs arbitrary: p)
  case Nil
  then show ?case by simp
next
  case (Cons rq rqs)
  from dispatch_effect [OF Cons.prems, of rq] obtain r p1 evs1
    where d: "dispatch p rq = Some (r, p1)" "\<not> model_lock p1"
      "trace p1 = trace p @ evs1" "filter is_Load evs1 = []"
    by blast
  from Cons.IH [OF d(2)] obtain rs p2 evs2
    where s: "serve p1 rqs = Some (rs, p2)" "\<not> model_lock p2"
      "trace p2 = trace p1 @ evs2" "filter is_Load evs2 = []"
    by blast
  have "serve p (rq # rqs) = Some (r # rs, p2)" using d(1) s(1) by simp
  moreover have "trace p2 = trace p @ (evs1 @ evs2)" using d(3) s(3) by simp
  moreover have "filter is_Load (evs1 @ evs2) = []" using d(4) s(4) by simp
  ultimately show ?case using s(2) by blast
qed

lemma reachable_trace:
  assumes "reachable p0 s"
  shows "\<exists>evs. trace (snd s) = trace p0 @ evs \<and> filter is_Load evs = []"
  using assms
proof (induction rule: reachable.induct)
  case init
  then show ?case by simp
next
  case (step s s')
  then obtain evs where e: "trace (snd s) = trace p0 @ evs" "filter is_Load evs = []" by blast
  from step.hyps(2) show ?case
  proof (cases rule: sys_step.cases)
    case (arrive ts p req)
    with e show ?thesis by simp
  next
    case (move i ts p c' p')
    from tstep_trace [OF move(4)] obtain evs' where
      "trace p' = trace p @ evs'" "filter is_Load evs' = []" by blast
    with e move(1,2) have "trace (snd s') = trace p0 @ (evs @ evs')"
      "filter is_Load (evs @ evs') = []" by simp_all
    then show ?thesis by blast
  qed
qed

section \<open>Properties\<close>




text \<open>
  Claim C2. If some entry of \<open>texts\<close> is empty or consists of whitespace only, the whole
  request is refused with \<open>HTTPException(400, "texts must be non-empty strings")\<close>. The
  refusal carries no embedding, and the process state is returned exactly as it was: the
  trace is not extended, so \<open>encode\<close> was not called for any entry and the lock was not
  touched. This holds in every state, the lock held by another request included.
\<close>

theorem embed_rejects_blank_entry:
  assumes "t \<in> set (texts req)" and "\<forall>c\<in>set t. isspace c"
  shows "embed p req = Some (Inl (HTTPException 400 ''texts must be non-empty strings''), p) \<and>
         status_code (Inl (HTTPException 400 ''texts must be non-empty strings'') :: error + 'f EmbedResponse) = 400"
proof -
  from assms(2) have "strip t = []" by (simp add: strip_empty_iff)
  with assms(1) have "embed p req =
      Some (Inl (HTTPException 400 ''texts must be non-empty strings''), p)"
    by (rule embed_rejected)
  then show ?thesis by simp
qed

theorem embed_rejects_blank_entry_witness:
  "embed example_process \<lparr>texts = [lit ''hello'', lit '' '']\<rparr> =
     Some (Inl (HTTPException 400 ''texts must be non-empty strings''), example_process)"
proof -
  let ?req = "\<lparr>texts = [lit ''hello'', lit '' '']\<rparr>"
  have "lit '' '' \<in> set (texts ?req)" by simp
  moreover have "\<forall>c\<in>set (lit '' ''). isspace c" by (simp add: lit_def isspace_def)
  ultimately show ?thesis
    using embed_rejects_blank_entry [of "lit '' ''" ?req example_process] by simp
qed



text \<open>
  Claim C5. Every entry is stripped before the model sees it, so surrounding whitespace
  cannot change an answer. An accepted request that gets the lock is answered with what
  \<open>encode\<close> gives for the stripped texts (the batch of the call is \<open>map strip ts\<close>, not
  \<open>ts\<close>). Hence a request and the same request with every entry already stripped have
  the same outcome and leave the same process state, in every state and for refused
  requests too: for a list of texts, for a single text, and for \<open>"  hello  "\<close> against
  \<open>"hello"\<close>.
\<close>

theorem embed_strips_before_encoding:
  "embed p \<lparr>texts = map strip ts\<rparr> = embed p \<lparr>texts = ts\<rparr> \<and>
   embed p \<lparr>texts = [strip t]\<rparr> = embed p \<lparr>texts = [t]\<rparr> \<and>
   embed p \<lparr>texts = [lit ''  hello  '']\<rparr> = embed p \<lparr>texts = [lit ''hello'']\<rparr> \<and>
   (ts \<noteq> [] \<and> (\<forall>t\<in>set ts. \<not> (\<forall>c\<in>set t. isspace c)) \<and> \<not> model_lock p \<longrightarrow>
      embed p \<lparr>texts = ts\<rparr> =
        (case encode (model p) (internals (model p))
                \<lparr>sentences = map strip ts, batch_size = 32, show_progress_bar = False,
                normalize_embeddings = False, convert_to_numpy = True\<rparr> of
           (r, w) \<Rightarrow>
             Some (case r of
                     Inl e \<Rightarrow> Inl (Unhandled e)
                   | Inr vectors \<Rightarrow> Inr \<lparr>embeddings = tolist vectors\<rparr>,
                   p\<lparr>model := (model p)\<lparr>internals := w\<rparr>,
                     trace := trace p @
                       [Acquire,
                        Encode \<lparr>sentences = map strip ts, batch_size = 32, show_progress_bar = False,
                normalize_embeddings = False, convert_to_numpy = True\<rparr>,
                        Release]\<rparr>)))"
proof -
  have clean: "clean_texts (map strip xs) = clean_texts xs" for xs
    by (simp add: clean_texts_eq filter_map o_def strip_idem)
  have gen: "embed p \<lparr>texts = map strip xs\<rparr> = embed p \<lparr>texts = xs\<rparr>" for xs
    by (simp add: embed_def clean)
  have "strip (lit ''  hello  '') = lit ''hello''"
    by (simp add: lit_def strip_def lstrip_def rstrip_def isspace_def)
  moreover have "strip (lit ''hello'') = lit ''hello''"
    by (simp add: lit_def strip_def lstrip_def rstrip_def isspace_def)
  ultimately have hello: "embed p \<lparr>texts = [lit ''  hello  '']\<rparr> = embed p \<lparr>texts = [lit ''hello'']\<rparr>"
    using gen [of "[lit ''  hello  '']"] gen [of "[lit ''hello'']"] by simp
  have call: "ts \<noteq> [] \<and> (\<forall>t\<in>set ts. \<not> (\<forall>c\<in>set t. isspace c)) \<and> \<not> model_lock p \<longrightarrow>
      embed p \<lparr>texts = ts\<rparr> =
        (case encode (model p) (internals (model p))
                \<lparr>sentences = map strip ts, batch_size = 32, show_progress_bar = False,
                normalize_embeddings = False, convert_to_numpy = True\<rparr> of
           (r, w) \<Rightarrow>
             Some (case r of
                     Inl e \<Rightarrow> Inl (Unhandled e)
                   | Inr vectors \<Rightarrow> Inr \<lparr>embeddings = tolist vectors\<rparr>,
                   p\<lparr>model := (model p)\<lparr>internals := w\<rparr>,
                     trace := trace p @
                       [Acquire,
                        Encode \<lparr>sentences = map strip ts, batch_size = 32, show_progress_bar = False,
                normalize_embeddings = False, convert_to_numpy = True\<rparr>,
                        Release]\<rparr>))"
  proof
    assume a: "ts \<noteq> [] \<and> (\<forall>t\<in>set ts. \<not> (\<forall>c\<in>set t. isspace c)) \<and> \<not> model_lock p"
    then have ne: "texts \<lparr>texts = ts\<rparr> \<noteq> []"
      and v: "\<forall>t\<in>set (texts \<lparr>texts = ts\<rparr>). strip t \<noteq> []"
      and free: "\<not> model_lock p"
      by (simp_all add: strip_empty_iff)
    show "embed p \<lparr>texts = ts\<rparr> =
        (case encode (model p) (internals (model p))
                \<lparr>sentences = map strip ts, batch_size = 32, show_progress_bar = False,
                normalize_embeddings = False, convert_to_numpy = True\<rparr> of
           (r, w) \<Rightarrow>
             Some (case r of
                     Inl e \<Rightarrow> Inl (Unhandled e)
                   | Inr vectors \<Rightarrow> Inr \<lparr>embeddings = tolist vectors\<rparr>,
                   p\<lparr>model := (model p)\<lparr>internals := w\<rparr>,
                     trace := trace p @
                       [Acquire,
                        Encode \<lparr>sentences = map strip ts, batch_size = 32, show_progress_bar = False,
                normalize_embeddings = False, convert_to_numpy = True\<rparr>,
                        Release]\<rparr>))"
      unfolding embed_accepted [OF ne v free]
      by (simp add: encode_args_def Let_def)
  qed
  from gen [of ts] gen [of "[t]"] hello call show ?thesis by simp
qed

theorem embed_strips_before_encoding_witness:
  "embed example_process \<lparr>texts = [lit ''  hello  '']\<rparr> =
     Some (Inr \<lparr>embeddings = [[5, 532]]\<rparr>,
           example_process\<lparr>model := \<lparr>internals = 1, encode = example_encode\<rparr>,
             trace := trace example_process @
               [Acquire,
                Encode \<lparr>sentences = [lit ''hello''], batch_size = 32, show_progress_bar = False,
                normalize_embeddings = False, convert_to_numpy = True\<rparr>,
                Release]\<rparr>) \<and>
   embed example_process \<lparr>texts = [lit ''hello'']\<rparr> =
     Some (Inr \<lparr>embeddings = [[5, 532]]\<rparr>,
           example_process\<lparr>model := \<lparr>internals = 1, encode = example_encode\<rparr>,
             trace := trace example_process @
               [Acquire,
                Encode \<lparr>sentences = [lit ''hello''], batch_size = 32, show_progress_bar = False,
                normalize_embeddings = False, convert_to_numpy = True\<rparr>,
                Release]\<rparr>)"
proof -
  let ?ts = "[lit ''  hello  '']"
  note th = embed_strips_before_encoding [of example_process ?ts "lit ''hello''"]
  have pre: "?ts \<noteq> [] \<and> (\<forall>t\<in>set ?ts. \<not> (\<forall>c\<in>set t. isspace c)) \<and> \<not> model_lock example_process"
    by (simp add: lit_def isspace_def example_process_def)
  have s: "map strip ?ts = [lit ''hello'']"
    by (simp add: lit_def strip_def lstrip_def rstrip_def isspace_def)
  from th [THEN conjunct2, THEN conjunct2, THEN conjunct1]
  have same: "embed example_process \<lparr>texts = [lit ''  hello  '']\<rparr> =
      embed example_process \<lparr>texts = [lit ''hello'']\<rparr>" .
  from th [THEN conjunct2, THEN conjunct2, THEN conjunct2, THEN mp, OF pre]
  have "embed example_process \<lparr>texts = ?ts\<rparr> =
        (case encode (model example_process) (internals (model example_process))
                \<lparr>sentences = map strip ?ts, batch_size = 32, show_progress_bar = False,
                normalize_embeddings = False, convert_to_numpy = True\<rparr> of
           (r, w) \<Rightarrow>
             Some (case r of
                     Inl e \<Rightarrow> Inl (Unhandled e)
                   | Inr vectors \<Rightarrow> Inr \<lparr>embeddings = tolist vectors\<rparr>,
                   example_process\<lparr>model := (model example_process)\<lparr>internals := w\<rparr>,
                     trace := trace example_process @
                       [Acquire,
                        Encode \<lparr>sentences = map strip ?ts, batch_size = 32, show_progress_bar = False,
                normalize_embeddings = False, convert_to_numpy = True\<rparr>,
                        Release]\<rparr>))" .
  then have first: "embed example_process \<lparr>texts = [lit ''  hello  '']\<rparr> =
     Some (Inr \<lparr>embeddings = [[5, 532]]\<rparr>,
           example_process\<lparr>model := \<lparr>internals = 1, encode = example_encode\<rparr>,
             trace := trace example_process @
               [Acquire,
                Encode \<lparr>sentences = [lit ''hello''], batch_size = 32, show_progress_bar = False,
                normalize_embeddings = False, convert_to_numpy = True\<rparr>,
                Release]\<rparr>)"
    unfolding s by (simp add: example_process_def example_encode_def lit_def)
  from first same show ?thesis by simp
qed

text \<open>
  Claim C4. A request whose \<open>texts\<close> is empty, and so also a body with no \<open>texts\<close>
  field, is answered at once with status 200 and an empty \<open>embeddings\<close> list: the
  process state is returned as it was (no lock operation, no model call, nothing added
  to the trace), whatever that state is, the lock being held included.
\<close>

theorem embed_empty_short_circuit:
  "parse_EmbedRequest None = \<lparr>texts = []\<rparr> \<and>
   embed p \<lparr>texts = []\<rparr> = Some (Inr \<lparr>embeddings = []\<rparr>, p) \<and>
   embed p (parse_EmbedRequest None) = Some (Inr \<lparr>embeddings = []\<rparr>, p) \<and>
   status_code (Inr \<lparr>embeddings = []\<rparr> :: error + 'f EmbedResponse) = 200"
  by (simp add: parse_EmbedRequest_def embed_def)



text \<open>
  Claim C6. \<open>health\<close> takes nothing from the request, returns the fixed dictionary
  \<open>{"status": "ok", "model": "all-MiniLM-L6-v2", "dimensions": 384}\<close> in every process
  state, and returns that state as it was: it does not read or take the lock (it answers
  while the lock is held), does not use the model, and adds nothing to the trace. It
  has no path that raises or blocks.
\<close>

theorem health_fixed_payload:
  "health p =
     ([(''status'', JStr ''ok''), (''model'', JStr ''all-MiniLM-L6-v2''), (''dimensions'', JInt 384)], p) \<and>
   dispatch p GET_health =
     Some (Health_reply
        [(''status'', JStr ''ok''), (''model'', JStr ''all-MiniLM-L6-v2''), (''dimensions'', JInt 384)], p) \<and>
   map_of (fst (health p)) ''status'' = Some (JStr ''ok'') \<and>
   map_of (fst (health p)) ''model'' = Some (JStr ''all-MiniLM-L6-v2'') \<and>
   map_of (fst (health p)) ''dimensions'' = Some (JInt 384)"
  by (simp add: health_def dispatch_def)

text \<open>
  Claim C10. Whatever the environment and the file system made the loader load, once
  the process has started \<open>health\<close> reports the model name \<open>"all-MiniLM-L6-v2"\<close> and the
  dimensions 384: both are literals of the handler, not read from \<open>MODEL_PATH\<close>,
  \<open>MODEL_NAME\<close> or the loaded model. With \<open>EMBEDDINGS_MODEL\<close> set to another model and no
  local directory, that other model is the one loaded, and the report stays the same.
\<close>

theorem health_reports_hardcoded_model:
  assumes "startup ctor env isdir = Inr p"
  shows "trace p = [Load (load_args env isdir)] \<and>
         ctor (load_args env isdir) = Inr (model p) \<and>
         map_of (fst (health p)) ''model'' = Some (JStr ''all-MiniLM-L6-v2'') \<and>
         map_of (fst (health p)) ''dimensions'' = Some (JInt 384)"
  using assms by (auto simp: startup_def health_def split: sum.splits)

theorem health_reports_hardcoded_model_witness:
  "\<exists>p. startup example_ctor
        [''EMBEDDINGS_MODEL'' \<mapsto> ''sentence-transformers/all-mpnet-base-v2''] (\<lambda>path. False) = Inr p \<and>
      trace p = [Load \<lparr>model_name_or_path = ''sentence-transformers/all-mpnet-base-v2'', device = ''cpu''\<rparr>] \<and>
      map_of (fst (health p)) ''model'' = Some (JStr ''all-MiniLM-L6-v2'') \<and>
      map_of (fst (health p)) ''dimensions'' = Some (JInt 384)"
proof -
  let ?env = "[''EMBEDDINGS_MODEL'' \<mapsto> ''sentence-transformers/all-mpnet-base-v2'']"
  have args: "load_args ?env (\<lambda>path. False) =
      \<lparr>model_name_or_path = ''sentence-transformers/all-mpnet-base-v2'', device = ''cpu''\<rparr>"
    by (simp add: load_args_def MODEL_NAME_def getenv_def)
  obtain p where p: "startup example_ctor ?env (\<lambda>path. False) = Inr p"
    by (simp add: startup_def args example_ctor_def)
  from health_reports_hardcoded_model [OF p] show ?thesis
    using p unfolding args by blast
qed

text \<open>
  Claim C3. In every state the server can reach from a start with the lock free,
  whatever requests arrive and however their threads interleave: at most one thread is
  inside \<open>model.encode\<close>, so no two are (two positions that are both encoding are the same
  position); a thread that is encoding holds the lock, which is held exactly when some
  thread is inside the \<open>with\<close> block; a thread waiting at the \<open>with\<close> cannot move while
  the lock is held; and a thread whose \<open>encode\<close> call is over, whether it returned
  an array or raised, leaves the block in its next step, which releases the lock and
  leaves no thread inside the block.
\<close>

theorem encode_mutual_exclusion:
  assumes free: "\<not> model_lock p0" and reach: "reachable p0 (ts, p)"
  shows "length (filter encoding ts) \<le> 1 \<and>
         (\<forall>i<length ts. \<forall>j<length ts. encoding (ts ! i) \<and> encoding (ts ! j) \<longrightarrow> i = j) \<and>
         (\<forall>i<length ts. encoding (ts ! i) \<longrightarrow> model_lock p) \<and>
         (model_lock p \<longleftrightarrow> (\<exists>c\<in>set ts. in_with c)) \<and>
         (\<forall>i<length ts. \<forall>c. model_lock p \<and> ts ! i = AtWith c \<longrightarrow> tstep (ts ! i) p = None) \<and>
         (\<forall>i<length ts. \<forall>r. ts ! i = AtExit r \<longrightarrow>
            (\<exists>out. tstep (ts ! i) p = Some (Finished out, release p) \<and>
                   reachable p0 (ts[i := Finished out], release p) \<and>
                   \<not> model_lock (release p) \<and>
                   \<not> (\<exists>c\<in>set (ts[i := Finished out]). in_with c)))"
proof -
  from reachable_lock_count [OF reach free]
  have inv: "length (filter in_with ts) = (if model_lock p then 1 else 0)" by simp
  have le: "length (filter encoding ts) \<le> 1"
    using filter_encoding_le [of ts] inv by (simp split: if_splits)
  have uniq: "\<forall>i<length ts. \<forall>j<length ts. encoding (ts ! i) \<and> encoding (ts ! j) \<longrightarrow> i = j"
    using filter_count_one_unique [OF le] by blast
  have held: "model_lock p \<longleftrightarrow> (\<exists>c\<in>set ts. in_with c)"
  proof
    assume "model_lock p"
    with inv have "filter in_with ts \<noteq> []" by auto
    then show "\<exists>c\<in>set ts. in_with c" by (simp add: filter_empty_conv)
  next
    assume "\<exists>c\<in>set ts. in_with c"
    then have "filter in_with ts \<noteq> []" by (simp add: filter_empty_conv)
    with inv show "model_lock p" by (auto split: if_splits)
  qed
  have guarded: "\<forall>i<length ts. encoding (ts ! i) \<longrightarrow> model_lock p"
    using held encoding_in_with by (metis nth_mem)
  have blocked: "\<forall>i<length ts. \<forall>c. model_lock p \<and> ts ! i = AtWith c \<longrightarrow> tstep (ts ! i) p = None"
    by (simp add: acquire_def)
  have exit: "\<forall>i<length ts. \<forall>r. ts ! i = AtExit r \<longrightarrow>
            (\<exists>out. tstep (ts ! i) p = Some (Finished out, release p) \<and>
                   reachable p0 (ts[i := Finished out], release p) \<and>
                   \<not> model_lock (release p) \<and>
                   \<not> (\<exists>c\<in>set (ts[i := Finished out]). in_with c))"
  proof (intro allI impI)
    fix i r
    assume i: "i < length ts" and at: "ts ! i = AtExit r"
    define out :: "error + 'a EmbedResponse" where
      "out = (case r of Inl e \<Rightarrow> Inl (Unhandled e) | Inr vectors \<Rightarrow> Inr \<lparr>embeddings = tolist vectors\<rparr>)"
    have st: "tstep (ts ! i) p = Some (Finished out, release p)"
      by (simp add: at out_def)
    from i st have "sys_step (ts, p) (ts[i := Finished out], release p)"
      by (rule sys_step.move)
    with reach have r': "reachable p0 (ts[i := Finished out], release p)"
      by (rule reachable.step)
    have fr: "\<not> model_lock (release p)" by (simp add: release_def)
    from reachable_lock_count [OF r' free] fr
    have "filter in_with (ts[i := Finished out]) = []" by simp
    then have "\<not> (\<exists>c\<in>set (ts[i := Finished out]). in_with c)"
      by (simp add: filter_empty_conv)
    with st r' fr show "\<exists>out. tstep (ts ! i) p = Some (Finished out, release p) \<and>
                   reachable p0 (ts[i := Finished out], release p) \<and>
                   \<not> model_lock (release p) \<and>
                   \<not> (\<exists>c\<in>set (ts[i := Finished out]). in_with c)"
      by blast
  qed
  from le uniq guarded held blocked exit show ?thesis by blast
qed

theorem encode_mutual_exclusion_witness:
  "reachable example_process
     ([InEncode [lit ''hi''], AtWith [lit ''yo'']],
      example_process\<lparr>model_lock := True, trace := trace example_process @ [Acquire]\<rparr>) \<and>
   length (filter encoding [InEncode [lit ''hi''], AtWith [lit ''yo''] :: nat pc]) \<le> 1 \<and>
   tstep (AtWith [lit ''yo''] :: nat pc)
     (example_process\<lparr>model_lock := True, trace := trace example_process @ [Acquire]\<rparr>) = None"
proof -
  define P1 where "P1 = example_process\<lparr>model_lock := True, trace := trace example_process @ [Acquire]\<rparr>"
  define r1 :: EmbedRequest where "r1 = \<lparr>texts = [lit '' hi '']\<rparr>"
  define r2 :: EmbedRequest where "r2 = \<lparr>texts = [lit ''yo'']\<rparr>"
  define hi where "hi = [lit ''hi'']"
  define yo where "yo = [lit ''yo'']"
  have free: "\<not> model_lock example_process" by (simp add: example_process_def)
  have e1: "tstep (Entry r1 :: nat pc) example_process = Some (AtWith hi, example_process)"
    by (simp add: r1_def hi_def clean_texts_def lit_def strip_def lstrip_def rstrip_def isspace_def)
  have e2: "tstep (Entry r2 :: nat pc) example_process = Some (AtWith yo, example_process)"
    by (simp add: r2_def yo_def clean_texts_def lit_def strip_def lstrip_def rstrip_def isspace_def)
  have e3: "tstep (AtWith hi :: nat pc) example_process = Some (InEncode hi, P1)"
    using free by (simp add: acquire_def P1_def)
  have s0: "reachable example_process ([], example_process)" by (rule reachable.init)
  have "sys_step ([] :: nat pc list, example_process) ([] @ [Entry r1], example_process)"
    by (rule sys_step.arrive)
  with s0 have s1: "reachable example_process ([Entry r1], example_process)"
    by (auto intro: reachable.step)
  have "sys_step ([Entry r1 :: nat pc], example_process) ([Entry r1] @ [Entry r2], example_process)"
    by (rule sys_step.arrive)
  with s1 have s2: "reachable example_process ([Entry r1, Entry r2], example_process)"
    by (auto intro: reachable.step)
  have "sys_step ([Entry r1, Entry r2 :: nat pc], example_process)
          ([Entry r1, Entry r2][0 := AtWith hi], example_process)"
    using e1 by (intro sys_step.move) simp_all
  with s2 have s3: "reachable example_process ([AtWith hi, Entry r2], example_process)"
    by (auto intro: reachable.step)
  have "sys_step ([AtWith hi, Entry r2 :: nat pc], example_process)
          ([AtWith hi, Entry r2][1 := AtWith yo], example_process)"
    using e2 by (intro sys_step.move) simp_all
  with s3 have s4: "reachable example_process ([AtWith hi, AtWith yo], example_process)"
    by (auto intro: reachable.step)
  have "sys_step ([AtWith hi, AtWith yo :: nat pc], example_process)
          ([AtWith hi, AtWith yo][0 := InEncode hi], P1)"
    using e3 by (intro sys_step.move) simp_all
  with s4 have s5: "reachable example_process ([InEncode hi, AtWith yo], P1)"
    by (auto intro: reachable.step)
  note th = encode_mutual_exclusion [OF free s5]
  let ?ts = "[InEncode hi, AtWith yo] :: nat pc list"
  from th have le: "length (filter encoding ?ts) \<le> 1"
    by (rule conjunct1)
  from th have "\<forall>i<length ?ts. \<forall>c. model_lock P1 \<and> ?ts ! i = AtWith c \<longrightarrow>
          tstep (?ts ! i) P1 = None"
    by (elim conjE) assumption
  from this [rule_format, of 1 yo] have bl: "tstep (AtWith yo :: nat pc) P1 = None"
    by (simp add: P1_def)
  from s5 le bl show ?thesis
    unfolding P1_def hi_def yo_def by (intro conjI)
qed

text \<open>
  Claim C7. The loader constructs the model from \<open>MODEL_PATH\<close> when \<open>os.path.isdir\<close>
  says it is a directory and from \<open>MODEL_NAME\<close> otherwise, on device \<open>"cpu"\<close> in both
  branches; the two names come from \<open>EMBEDDINGS_MODEL_PATH\<close> and \<open>EMBEDDINGS_MODEL\<close>, with
  the defaults \<open>/models/all-MiniLM-L6-v2\<close> and \<open>sentence-transformers/all-MiniLM-L6-v2\<close>.
  When startup succeeds, that construction is the first and only entry of the trace, the
  model in the process state is the one it returned, and no request served afterwards,
  one after another or on interleaved threads, loads again: the trace of every later
  state begins with that one load and holds no other.
\<close>

theorem model_loaded_once_at_startup:
  assumes start: "startup ctor env isdir = Inr p0"
  shows "load_args env isdir =
           \<lparr>model_name_or_path = (if isdir (MODEL_PATH env) then MODEL_PATH env else MODEL_NAME env),
            device = ''cpu''\<rparr> \<and>
         MODEL_PATH env =
           (case env ''EMBEDDINGS_MODEL_PATH'' of None \<Rightarrow> ''/models/all-MiniLM-L6-v2'' | Some v \<Rightarrow> v) \<and>
         MODEL_NAME env =
           (case env ''EMBEDDINGS_MODEL'' of
              None \<Rightarrow> ''sentence-transformers/all-MiniLM-L6-v2'' | Some v \<Rightarrow> v) \<and>
         ctor (load_args env isdir) = Inr (model p0) \<and>
         trace p0 = [Load (load_args env isdir)] \<and>
         (\<exists>rs p. serve p0 rqs = Some (rs, p) \<and>
            filter is_Load (trace p) = [Load (load_args env isdir)] \<and>
            hd (trace p) = Load (load_args env isdir)) \<and>
         (\<forall>ts p. reachable p0 (ts, p) \<longrightarrow>
            filter is_Load (trace p) = [Load (load_args env isdir)] \<and>
            hd (trace p) = Load (load_args env isdir))"
proof -
  from start have p0: "ctor (load_args env isdir) = Inr (model p0)"
    "trace p0 = [Load (load_args env isdir)]" "\<not> model_lock p0"
    by (auto simp: startup_def split: sum.splits)
  have args: "load_args env isdir =
           \<lparr>model_name_or_path = (if isdir (MODEL_PATH env) then MODEL_PATH env else MODEL_NAME env),
            device = ''cpu''\<rparr>"
    by (simp add: load_args_def)
  have env: "MODEL_PATH env =
           (case env ''EMBEDDINGS_MODEL_PATH'' of None \<Rightarrow> ''/models/all-MiniLM-L6-v2'' | Some v \<Rightarrow> v)"
    "MODEL_NAME env =
           (case env ''EMBEDDINGS_MODEL'' of
              None \<Rightarrow> ''sentence-transformers/all-MiniLM-L6-v2'' | Some v \<Rightarrow> v)"
    by (simp_all add: MODEL_PATH_def MODEL_NAME_def getenv_def)
  from serve_effect [OF p0(3), of rqs] obtain rs p evs
    where "serve p0 rqs = Some (rs, p)" "trace p = trace p0 @ evs" "filter is_Load evs = []"
    by blast
  with p0(2) have seq: "\<exists>rs p. serve p0 rqs = Some (rs, p) \<and>
            filter is_Load (trace p) = [Load (load_args env isdir)] \<and>
            hd (trace p) = Load (load_args env isdir)"
    by simp
  have conc: "\<forall>ts p. reachable p0 (ts, p) \<longrightarrow>
            filter is_Load (trace p) = [Load (load_args env isdir)] \<and>
            hd (trace p) = Load (load_args env isdir)"
  proof (intro allI impI)
    fix ts p
    assume "reachable p0 (ts, p)"
    from reachable_trace [OF this] obtain evs
      where "trace p = trace p0 @ evs" "filter is_Load evs = []" by auto
    with p0(2) show "filter is_Load (trace p) = [Load (load_args env isdir)] \<and>
            hd (trace p) = Load (load_args env isdir)"
      by simp
  qed
  show ?thesis
    using args env p0(1,2) seq conc by (intro conjI) assumption+
qed

theorem model_loaded_once_at_startup_witness:
  "startup example_ctor Map.empty (\<lambda>path. False) = Inr example_process \<and>
   load_args Map.empty (\<lambda>path. False) =
     \<lparr>model_name_or_path = ''sentence-transformers/all-MiniLM-L6-v2'', device = ''cpu''\<rparr> \<and>
   load_args Map.empty (\<lambda>path. path = ''/models/all-MiniLM-L6-v2'') =
     \<lparr>model_name_or_path = ''/models/all-MiniLM-L6-v2'', device = ''cpu''\<rparr> \<and>
   (\<exists>rs p. serve example_process [POST_embed (Some [lit ''hi'']), GET_health, POST_embed None] = Some (rs, p) \<and>
      filter is_Load (trace p) =
        [Load \<lparr>model_name_or_path = ''sentence-transformers/all-MiniLM-L6-v2'', device = ''cpu''\<rparr>])"
proof -
  have args: "load_args Map.empty (\<lambda>path. False) =
     \<lparr>model_name_or_path = ''sentence-transformers/all-MiniLM-L6-v2'', device = ''cpu''\<rparr>"
    by (simp add: load_args_def MODEL_NAME_def getenv_def)
  have args': "load_args Map.empty (\<lambda>path. path = ''/models/all-MiniLM-L6-v2'') =
     \<lparr>model_name_or_path = ''/models/all-MiniLM-L6-v2'', device = ''cpu''\<rparr>"
    by (simp add: load_args_def MODEL_PATH_def getenv_def)
  have start: "startup example_ctor Map.empty (\<lambda>path. False) = Inr example_process"
    by (simp add: startup_def args example_ctor_def example_process_def)
  from model_loaded_once_at_startup [OF start, of "[POST_embed (Some [lit ''hi'']), GET_health, POST_embed None]"]
  show ?thesis using start args' unfolding args by blast
qed

end
